theory Spec2Isabelle
  imports Complex_Main "HOL-Library.Multiset"
begin

section \<open>The pgbench test: throughput extraction and parameter setup\<close>

text \<open>
  A shallow embedding of \<^verbatim>\<open>perf/pgbench.py\<close>: the method \<^verbatim>\<open>extract_tps_stats\<close>
  (the regular expression, the conversion of its captured group with \<^verbatim>\<open>float\<close>, the
  statistics and the printed report), the validation of \<^verbatim>\<open>benchmark_duration\<close> and
  \<^verbatim>\<open>transaction_count\<close> at the end of \<^verbatim>\<open>setUp\<close>, and the choice of the benchmark
  command in \<^verbatim>\<open>test\<close>.

  A line of the log is a \<^typ>\<open>string\<close>; a character stands for the code point of the same
  number (below 256). The file object yields the lines of the log one by one, so a log is
  the list of its lines.
\<close>

subsection \<open>Character classes of the pattern\<close>

text \<open>
  \<^verbatim>\<open>\s\<close> of a \<^verbatim>\<open>str\<close> pattern matches the white space of Unicode: below 256 these are
  the code points 9 to 13, 28 to 32, 133 and 160. \<^verbatim>\<open>\d\<close> matches the decimal digits:
  below 256 these are \<^verbatim>\<open>0\<close> to \<^verbatim>\<open>9\<close>.
\<close>

definition is_space :: "char \<Rightarrow> bool" where
  "is_space c =
     (let n = (of_char c :: nat)
      in (9 \<le> n \<and> n \<le> 13) \<or> (28 \<le> n \<and> n \<le> 32) \<or> n = 133 \<or> n = 160)"

definition is_digit :: "char \<Rightarrow> bool" where
  "is_digit c = (let n = (of_char c :: nat) in 48 \<le> n \<and> n \<le> 57)"

text \<open>The class \<^verbatim>\<open>[\d.]\<close>.\<close>

definition is_numchar :: "char \<Rightarrow> bool" where
  "is_numchar c = (is_digit c \<or> c = CHR ''.'')"

subsection \<open>The pattern \<^verbatim>\<open>tps\s*=\s*([\d.]+)\<close>\<close>

text \<open>
  \<open>match_here s\<close> is \<^verbatim>\<open>tps_pattern.match\<close> at the start of \<open>s\<close>, returning group 1.
  Both \<^verbatim>\<open>\s*\<close> and \<^verbatim>\<open>[\d.]+\<close> are greedy; what follows each of them cannot start
  with a character of its class, so the longest run is the only one the matcher can
  succeed with, and it is taken directly.
\<close>

definition match_here :: "string \<Rightarrow> string option" where
  "match_here s =
     (if take 3 s = ''tps'' then
        (case dropWhile is_space (drop 3 s) of
           [] \<Rightarrow> None
         | c # r \<Rightarrow>
             if c = CHR ''='' then
               (let tok = takeWhile is_numchar (dropWhile is_space r)
                in if tok = [] then None else Some tok)
             else None)
      else None)"

text \<open>\<^verbatim>\<open>tps_pattern.search(line)\<close>: the match at the leftmost position that has one.\<close>

fun search :: "string \<Rightarrow> string option" where
  "search [] = match_here []"
| "search (c # cs) =
     (case match_here (c # cs) of Some tok \<Rightarrow> Some tok | None \<Rightarrow> search cs)"

subsection \<open>The pattern, read as a set of lines\<close>

text \<open>
  The same pattern without a matcher. \<open>contains_pattern line\<close>: somewhere in the line
  stand \<^verbatim>\<open>tps\<close>, white space or none, \<^verbatim>\<open>=\<close>, white space or none, and at least one
  character of \<^verbatim>\<open>[\d.]\<close>.
\<close>

definition contains_pattern :: "string \<Rightarrow> bool" where
  "contains_pattern line =
     (\<exists>pre w1 w2 tok post.
        line = pre @ ''tps'' @ w1 @ ''='' @ w2 @ tok @ post \<and>
        list_all is_space w1 \<and> list_all is_space w2 \<and>
        tok \<noteq> [] \<and> list_all is_numchar tok)"

text \<open>
  \<open>occurrence s tok\<close>: the pattern stands at the start of \<open>s\<close>, and \<open>tok\<close> is the longest
  run of \<^verbatim>\<open>[\d.]\<close> there, which is what the greedy group captures.
\<close>

definition occurrence :: "string \<Rightarrow> string \<Rightarrow> bool" where
  "occurrence s tok =
     (\<exists>w1 w2 post.
        s = ''tps'' @ w1 @ ''='' @ w2 @ tok @ post \<and>
        list_all is_space w1 \<and> list_all is_space w2 \<and>
        tok \<noteq> [] \<and> list_all is_numchar tok \<and>
        (case post of [] \<Rightarrow> True | c # _ \<Rightarrow> \<not> is_numchar c))"

text \<open>\<open>first_occurrence line tok\<close>: the leftmost occurrence in the line captures \<open>tok\<close>.\<close>

definition first_occurrence :: "string \<Rightarrow> string \<Rightarrow> bool" where
  "first_occurrence line tok =
     (\<exists>n. n \<le> length line \<and> occurrence (drop n line) tok \<and>
          (\<forall>i < n. \<forall>t. \<not> occurrence (drop i line) t))"

text \<open>
  The matching rule in the words of the specification: the line contains \<^verbatim>\<open>tps\<close>,
  optional white space, \<^verbatim>\<open>=\<close>, optional white space and a numeric token composed of
  digits and at most one decimal point.
\<close>

definition spec_token :: "string \<Rightarrow> bool" where
  "spec_token tok =
     (tok \<noteq> [] \<and> list_all is_numchar tok \<and> length (filter (\<lambda>c. c = CHR ''.'') tok) \<le> 1)"

definition spec_source :: "string \<Rightarrow> bool" where
  "spec_source line =
     (\<exists>pre w1 w2 tok post.
        line = pre @ ''tps'' @ w1 @ ''='' @ w2 @ tok @ post \<and>
        list_all is_space w1 \<and> list_all is_space w2 \<and> spec_token tok)"

subsection \<open>Floating-point numbers\<close>

text \<open>
  A Python \<^verbatim>\<open>float\<close> is an IEEE 754 binary64 number. The captured tokens carry no sign
  and no exponent, and the program only adds the values and divides the sum by a positive
  count, so the values that occur are the finite non-negative numbers of the format, each
  of them a rational number, and positive infinity (after an overflow).
\<close>

datatype pyfloat = Finite rat | Infinity

text \<open>
  The exceptions that can occur in \<^verbatim>\<open>extract_tps_stats\<close>: \<^verbatim>\<open>ValueError\<close> from
  \<^verbatim>\<open>float\<close> (and from \<^verbatim>\<open>open\<close>, for a path with a null character), and the
  \<^verbatim>\<open>OSError\<close>s of \<^verbatim>\<open>open\<close>: \<^verbatim>\<open>FileNotFoundError\<close>, \<^verbatim>\<open>NotADirectoryError\<close>,
  \<^verbatim>\<open>IsADirectoryError\<close>, \<^verbatim>\<open>PermissionError\<close>, and \<^verbatim>\<open>OSError\<close> itself for the
  others (a name that is too long, for one).
\<close>

datatype exn =
    ValueError
  | FileNotFoundError
  | NotADirectoryError
  | IsADirectoryError
  | PermissionError
  | OSError

fun bit_length :: "nat \<Rightarrow> nat" where
  "bit_length n = (if n = 0 then 0 else Suc (bit_length (n div 2)))"

text \<open>The integer part of the binary logarithm of a positive rational number.\<close>

definition ilog2 :: "rat \<Rightarrow> int" where
  "ilog2 x =
     (let (p, q) = quotient_of x;
          d = int (bit_length (nat p)) - int (bit_length (nat q))
      in if 2 powi d \<le> x then d else d - 1)"

definition round_half_even :: "rat \<Rightarrow> int" where
  "round_half_even x =
     (let n = \<lfloor>x\<rfloor>; r = x - of_int n
      in if r < 1 / 2 then n
         else if 1 / 2 < r then n + 1
         else if even n then n else n + 1)"

text \<open>
  Rounding of a non-negative real number to binary64, to nearest with ties to even:
  53 significant bits, the least exponent of a unit in the last place is \<open>-1074\<close>, and
  a result of \<open>2 ^ 1024\<close> or more overflows to infinity.
\<close>

definition fl :: "rat \<Rightarrow> pyfloat" where
  "fl x =
     (if x \<le> 0 then Finite 0
      else
        (let e = max (ilog2 x - 52) (- 1074);
             y = of_int (round_half_even (x / 2 powi e)) * 2 powi e
         in if 2 ^ 1024 \<le> y then Infinity else Finite y))"

text \<open>\<^verbatim>\<open>a + b\<close> and \<^verbatim>\<open>a / n\<close> for a float \<open>a\<close>, a float \<open>b\<close> and a positive count \<open>n\<close>.\<close>

fun fadd :: "pyfloat \<Rightarrow> pyfloat \<Rightarrow> pyfloat" where
  "fadd (Finite a) (Finite b) = fl (a + b)"
| "fadd _ _ = Infinity"

fun fdiv :: "pyfloat \<Rightarrow> nat \<Rightarrow> pyfloat" where
  "fdiv (Finite a) n = fl (a / of_nat n)"
| "fdiv Infinity n = Infinity"

fun fle :: "pyfloat \<Rightarrow> pyfloat \<Rightarrow> bool" where
  "fle (Finite a) (Finite b) = (a \<le> b)"
| "fle _ Infinity = True"
| "fle Infinity (Finite b) = False"

definition flt :: "pyfloat \<Rightarrow> pyfloat \<Rightarrow> bool" where
  "flt a b = (\<not> fle b a)"

subsection \<open>\<^verbatim>\<open>float(match.group(1))\<close>\<close>

text \<open>
  The argument is a token of the class \<^verbatim>\<open>[\d.]+\<close>. \<^verbatim>\<open>float\<close> accepts such a token when
  it has at least one digit and at most one point, and raises \<^verbatim>\<open>ValueError\<close> otherwise.
  The value of an accepted token is its decimal value, correctly rounded.
\<close>

definition digit_value :: "char \<Rightarrow> nat" where
  "digit_value c = of_char c - 48"

definition digits_value :: "string \<Rightarrow> nat" where
  "digits_value ds = foldl (\<lambda>n c. 10 * n + digit_value c) 0 ds"

definition well_formed :: "string \<Rightarrow> bool" where
  "well_formed tok =
     ((\<exists>c \<in> set tok. is_digit c) \<and> length (filter (\<lambda>c. c = CHR ''.'') tok) \<le> 1)"

definition decimal_value :: "string \<Rightarrow> rat" where
  "decimal_value tok =
     (let ip = takeWhile is_digit tok;
          fp = drop (Suc (length ip)) tok
      in of_nat (digits_value (ip @ fp)) / 10 ^ length fp)"

definition float_of_token :: "string \<Rightarrow> exn + pyfloat" where
  "float_of_token tok =
     (if well_formed tok then Inr (fl (decimal_value tok)) else Inl ValueError)"

subsection \<open>The list comprehension of \<^verbatim>\<open>extract_tps_stats\<close>\<close>

text \<open>
  \<open>line_sample line\<close> is what one line adds to \<^verbatim>\<open>tps_values\<close>: nothing when the
  pattern is not found, the converted token when it is, or the exception of the conversion.
\<close>

definition line_sample :: "string \<Rightarrow> exn + pyfloat option" where
  "line_sample line =
     (case search line of
        None \<Rightarrow> Inr None
      | Some tok \<Rightarrow>
          (case float_of_token tok of Inl e \<Rightarrow> Inl e | Inr v \<Rightarrow> Inr (Some v)))"

fun read_samples :: "string list \<Rightarrow> exn + pyfloat list" where
  "read_samples [] = Inr []"
| "read_samples (line # rest) =
     (case line_sample line of
        Inl e \<Rightarrow> Inl e
      | Inr None \<Rightarrow> read_samples rest
      | Inr (Some v) \<Rightarrow>
          (case read_samples rest of Inl e \<Rightarrow> Inl e | Inr vs \<Rightarrow> Inr (v # vs)))"

subsection \<open>Statistics\<close>

text \<open>
  \<^verbatim>\<open>min\<close> and \<^verbatim>\<open>max\<close> keep the first item and replace it by a later one that is
  strictly smaller (strictly greater). They are only called on a non-empty list, given
  here as its first item and the rest.
\<close>

definition py_min :: "pyfloat \<Rightarrow> pyfloat list \<Rightarrow> pyfloat" where
  "py_min v rest = foldl (\<lambda>m x. if flt x m then x else m) v rest"

definition py_max :: "pyfloat \<Rightarrow> pyfloat list \<Rightarrow> pyfloat" where
  "py_max v rest = foldl (\<lambda>m x. if flt m x then x else m) v rest"

text \<open>
  \<^verbatim>\<open>sum\<close> starts from the integer \<open>0\<close> and adds the items from left to right, each
  addition rounded. (From Python 3.12 on \<^verbatim>\<open>sum\<close> compensates the rounding errors of
  the additions; the results stated below for concrete logs are the same there.)
\<close>

definition py_sum :: "pyfloat list \<Rightarrow> pyfloat" where
  "py_sum vs = foldl fadd (Finite 0) vs"

text \<open>\<^verbatim>\<open>sum(tps_values) / len(tps_values)\<close>\<close>

definition average :: "pyfloat list \<Rightarrow> pyfloat" where
  "average vs = fdiv (py_sum vs) (length vs)"

subsection \<open>Formatting\<close>

definition digit_char :: "nat \<Rightarrow> char" where
  "digit_char d = ''0123456789'' ! d"

fun show_nat :: "nat \<Rightarrow> string" where
  "show_nat n =
     (if n < 10 then [digit_char n] else show_nat (n div 10) @ [digit_char (n mod 10)])"

text \<open>
  \<^verbatim>\<open>.2f\<close>: the exact value of the float, rounded to two decimals with ties to even;
  infinity is written \<^verbatim>\<open>inf\<close>.
\<close>

definition format_2f :: "pyfloat \<Rightarrow> string" where
  "format_2f v =
     (case v of
        Infinity \<Rightarrow> ''inf''
      | Finite x \<Rightarrow>
          (let h = nat (round_half_even (x * 100))
           in show_nat (h div 100) @ ''.'' @
              [digit_char (h mod 100 div 10), digit_char (h mod 10)]))"

text \<open>\<^verbatim>\<open><15\<close>: left-justified in a field of at least 15 characters.\<close>

definition ljust15 :: "string \<Rightarrow> string" where
  "ljust15 s = s @ replicate (15 - length s) CHR '' ''"

subsection \<open>\<^verbatim>\<open>extract_tps_stats\<close>\<close>

text \<open>
  What \<^verbatim>\<open>print\<close> writes: a line of text, or the line
  \<^verbatim>\<open>Captured TPS values: [...]\<close>, kept as the list it shows (the shortest
  representation of each float is not rendered).
\<close>

datatype printed = Line string | Captured_TPS_values "pyfloat list"

text \<open>
  The world the method runs in. \<open>files\<close> holds the paths at which
  \<^verbatim>\<open>open(log_file, "r")\<close> succeeds, each with the lines that the file object yields.
  For every other path \<open>open_error\<close> is the exception that \<^verbatim>\<open>open\<close> raises there:
  \<^verbatim>\<open>FileNotFoundError\<close> where nothing has that name, \<^verbatim>\<open>NotADirectoryError\<close> where a
  component of the path is a regular file, and so on. \<open>stdout\<close> is what has been written
  to the standard output.
\<close>

record world =
  files :: "string \<rightharpoonup> string list"
  open_error :: "string \<Rightarrow> exn"
  stdout :: "printed list"

definition print :: "printed list \<Rightarrow> world \<Rightarrow> world" where
  "print ps w = w\<lparr>stdout := stdout w @ ps\<rparr>"

definition header_row :: string where
  "header_row = ljust15 ''Min'' @ ljust15 ''Max'' @ ljust15 ''Average''"

definition stats_row :: "pyfloat \<Rightarrow> pyfloat \<Rightarrow> pyfloat \<Rightarrow> string" where
  "stats_row mn mx av = ljust15 (format_2f mn) @ ljust15 (format_2f mx) @ ljust15 (format_2f av)"

text \<open>
  The method returns \<^verbatim>\<open>None\<close> on every path that returns; \<open>Inr\<close> carries the world
  after the call, \<open>Inl\<close> the exception that leaves the method (nothing is printed before
  it, since \<^verbatim>\<open>open\<close> and the list comprehension come first). The \<^verbatim>\<open>try\<close> statement
  has the one handler \<^verbatim>\<open>except FileNotFoundError\<close>: any other exception of \<^verbatim>\<open>open\<close>
  leaves the method, as the \<^verbatim>\<open>ValueError\<close> of \<^verbatim>\<open>float\<close> does.
\<close>

definition extract_tps_stats :: "string \<Rightarrow> world \<Rightarrow> exn + world" where
  "extract_tps_stats log_file w =
     (case files w log_file of
        None \<Rightarrow>
          if open_error w log_file = FileNotFoundError
          then Inr (print [Line (''File not found: '' @ log_file)] w)
          else Inl (open_error w log_file)
      | Some f \<Rightarrow>
          (case read_samples f of
             Inl e \<Rightarrow> Inl e
           | Inr [] \<Rightarrow> Inr (print [Line ''No TPS values found in the log file.''] w)
           | Inr (v # rest) \<Rightarrow>
               Inr (print
                 [Captured_TPS_values (v # rest),
                  Line (CHR 0x0A # ''TPS Statistics''),
                  Line header_row,
                  Line (replicate 45 CHR ''-''),
                  Line (stats_row (py_min v rest) (py_max v rest) (average (v # rest)))] w)))"

text \<open>The log of the specification's example, line by line.\<close>

definition example_log :: "string list" where
  "example_log =
     [''tps = 120.50 (including connections establishing)'',
      ''tps = 135.0'',
      ''random text'',
      ''tps=99.999'']"

subsection \<open>Parameters: the end of \<^verbatim>\<open>setUp\<close> and the command of \<^verbatim>\<open>test\<close>\<close>

record params =
  scaling_factor :: int
  worker_threads :: int
  db_clients :: int
  protocol :: string
  benchmark_duration :: int
  transaction_count :: int

datatype warning = Both_given | None_given

text \<open>
  The validation at the end of \<^verbatim>\<open>setUp\<close>: the warning logged, if any, and the
  parameters after it.
\<close>

definition validate :: "params \<Rightarrow> warning list \<times> params" where
  "validate p =
     (if benchmark_duration p > 0 \<and> transaction_count p > 0 then ([Both_given], p)
      else if benchmark_duration p = 0 \<and> transaction_count p = 0
        then ([None_given], p\<lparr>benchmark_duration := 120\<rparr>)
      else ([], p))"

text \<open>
  The two command lines of \<^verbatim>\<open>test\<close>, by their options: \<^verbatim>\<open>--protocol\<close>,
  \<^verbatim>\<open>--jobs\<close>, \<^verbatim>\<open>--scale\<close>, \<^verbatim>\<open>--client\<close>, and \<^verbatim>\<open>--time\<close> or
  \<^verbatim>\<open>--transactions\<close>.
\<close>

datatype command =
    is_time: Pgbench_time string int int int int
  | is_transactions: Pgbench_transactions string int int int int

definition benchmark_command :: "params \<Rightarrow> command" where
  "benchmark_command p =
     (if benchmark_duration p > 0
      then Pgbench_time (protocol p) (worker_threads p) (scaling_factor p) (db_clients p)
             (benchmark_duration p)
      else Pgbench_transactions (protocol p) (worker_threads p) (scaling_factor p)
             (db_clients p) (transaction_count p))"

section \<open>Properties of the model\<close>

subsection \<open>Evaluating the rounding\<close>

declare bit_length.simps [simp del]

lemma bit_length_pos: "0 < n \<Longrightarrow> 0 < bit_length n"
  by (subst bit_length.simps) simp

lemma bit_length_bounds:
  "0 < n \<Longrightarrow> 2 ^ (bit_length n - 1) \<le> n \<and> n < 2 ^ bit_length n"
proof (induction n rule: bit_length.induct)
  case (1 n)
  show ?case
  proof (cases "n div 2 = 0")
    case True
    with \<open>0 < n\<close> have "n = 1" by presburger
    have b: "bit_length 1 = 1"
      by (subst bit_length.simps, simp, subst bit_length.simps, simp)
    show ?thesis unfolding \<open>n = 1\<close> b by simp
  next
    case False
    then have pos: "0 < n div 2" by simp
    from 1 pos have ih: "2 ^ (bit_length (n div 2) - 1) \<le> n div 2"
      "n div 2 < 2 ^ bit_length (n div 2)" by simp_all
    have bl: "bit_length n = Suc (bit_length (n div 2))"
      using \<open>0 < n\<close> by (subst bit_length.simps) simp
    obtain b where b: "bit_length (n div 2) = Suc b"
      using bit_length_pos [OF pos] by (cases "bit_length (n div 2)") auto
    from ih b have "2 ^ b \<le> n div 2" "n div 2 < 2 * 2 ^ b" by simp_all
    then have "2 * 2 ^ b \<le> n" "n < 2 * (2 * 2 ^ b)" by presburger+
    then show ?thesis by (simp add: bl b)
  qed
qed


lemma rhe_eqI:
  assumes "\<bar>x - of_int m\<bar> < 1 / 2 \<or> (\<bar>x - of_int m\<bar> = 1 / 2 \<and> even m)"
  shows "round_half_even x = m"
proof -
  define n where "n = \<lfloor>x\<rfloor>"
  define r where "r = x - of_int n"
  have r: "0 \<le> r" "r < 1" unfolding r_def n_def by linarith+
  have x: "x = of_int n + r" by (simp add: r_def)
  have rhe: "round_half_even x =
      (if r < 1 / 2 then n else if 1 / 2 < r then n + 1 else if even n then n else n + 1)"
    by (simp add: round_half_even_def Let_def n_def r_def)
  from assms show ?thesis
  proof
    assume a: "\<bar>x - of_int m\<bar> < 1 / 2"
    then have "x - of_int m < 1 / 2 \<and> - (x - of_int m) < 1 / 2"
      by (simp only: abs_less_iff)
    then have b: "x - of_int m < 1 / 2" "- (1 / 2) < x - of_int m"
      by linarith+
    have "(of_int n :: rat) < of_int m + 1" using b r x by linarith
    then have "(of_int n :: rat) < of_int (m + 1)" by simp
    then have le: "n \<le> m" by (simp only: of_int_less_iff)
    have "(of_int m :: rat) < of_int n + 2" using b r x by linarith
    then have "(of_int m :: rat) < of_int (n + 2)" by simp
    then have ge: "m \<le> n + 1" by (simp only: of_int_less_iff)
    from le ge consider "n = m" | "n = m - 1" by linarith
    then show ?thesis
    proof cases
      case 1
      then have "r < 1 / 2" using b x by simp
      then show ?thesis using rhe 1 by simp
    next
      case 2
      then have "1 / 2 < r" using b x by simp
      then show ?thesis using rhe 2 by simp
    qed
  next
    assume a: "\<bar>x - of_int m\<bar> = 1 / 2 \<and> even m"
    then have "x - of_int m = 1 / 2 \<or> x - of_int m = - (1 / 2)" by linarith
    then show ?thesis
    proof
      assume "x - of_int m = 1 / 2"
      then have "x = of_int m + 1 / 2" by simp
      then have "n = m" unfolding n_def by (simp add: floor_unique)
      then have "r = 1 / 2" using \<open>x = of_int m + 1 / 2\<close> by (simp add: r_def)
      then show ?thesis using rhe a \<open>n = m\<close> by simp
    next
      assume "x - of_int m = - (1 / 2)"
      then have xm: "x = of_int (m - 1) + 1 / 2" by simp
      then have nm: "n = m - 1" unfolding n_def by (auto intro!: floor_unique)
      then have "r = 1 / 2" using xm by (simp add: r_def)
      moreover have "odd n" using a nm by simp
      ultimately show ?thesis using rhe nm by simp
    qed
  qed
qed


lemma ilog2_bounds:
  assumes "0 < x"
  shows "2 powi (ilog2 x) \<le> x \<and> x < 2 powi (ilog2 x + 1)"
proof -
  obtain p q where pq: "quotient_of x = (p, q)" by force
  have q: "0 < q" using quotient_of_denom_pos [OF pq] .
  have x: "x = of_int p / of_int q" using quotient_of_div [OF pq] .
  have p: "0 < p" using assms q x by (simp add: zero_less_divide_iff)
  define a where "a = bit_length (nat p)"
  define b where "b = bit_length (nat q)"
  have a0: "0 < a" and b0: "0 < b"
    using p q by (simp_all add: a_def b_def bit_length_pos)
  have "2 ^ (a - 1) \<le> nat p" "nat p < 2 ^ a" "2 ^ (b - 1) \<le> nat q" "nat q < 2 ^ b"
    using bit_length_bounds [of "nat p"] bit_length_bounds [of "nat q"] p q
    by (simp_all add: a_def b_def)
  then have "int (2 ^ (a - 1)) \<le> p" "p < int (2 ^ a)" "int (2 ^ (b - 1)) \<le> q" "q < int (2 ^ b)"
    using p q by linarith+
  then have "(of_int (int (2 ^ (a - 1))) :: rat) \<le> of_int p" "(of_int p :: rat) < of_int (int (2 ^ a))"
    "(of_int (int (2 ^ (b - 1))) :: rat) \<le> of_int q" "(of_int q :: rat) < of_int (int (2 ^ b))"
    by (simp_all only: of_int_le_iff of_int_less_iff)
  then have P: "(2::rat) ^ (a - 1) \<le> of_int p" "(of_int p :: rat) < 2 ^ a"
    and Q: "(2::rat) ^ (b - 1) \<le> of_int q" "(of_int q :: rat) < 2 ^ b"
    by simp_all
  have xq: "x * of_int q = of_int p" using q x by simp
  have qpos: "(0::rat) < of_int q" using q by simp
  have "x * 2 ^ (b - 1) \<le> x * of_int q" using Q(1) assms by simp
  then have "x * 2 ^ (b - 1) < 2 ^ a" using xq P(2) by linarith
  then have "x < 2 ^ a / 2 ^ (b - 1)" by (simp add: pos_less_divide_eq)
  also have "\<dots> = 2 powi (int a - int (b - 1))" by (simp add: power_int_diff)
  also have "int a - int (b - 1) = int a - int b + 1" using b0 by simp
  finally have up: "x < 2 powi (int a - int b + 1)" .
  have "x * of_int q < x * 2 ^ b" using Q(2) assms by simp
  then have "2 ^ (a - 1) < x * 2 ^ b" using xq P(1) by linarith
  then have "2 ^ (a - 1) / 2 ^ b < x" by (simp add: pos_divide_less_eq)
  moreover have "(2::rat) ^ (a - 1) / 2 ^ b = 2 powi (int (a - 1) - int b)" by (simp add: power_int_diff)
  moreover have "int (a - 1) - int b = int a - int b - 1" using a0 by simp
  ultimately have lo: "2 powi (int a - int b - 1) < x" by metis
  have il: "ilog2 x = (if 2 powi (int a - int b) \<le> x then int a - int b else int a - int b - 1)"
    by (simp add: ilog2_def pq a_def b_def Let_def)
  show ?thesis
  proof (cases "2 powi (int a - int b) \<le> x")
    case True
    then show ?thesis using up il by simp
  next
    case False
    then show ?thesis using lo il by simp
  qed
qed

lemma ilog2_unique:
  assumes "0 < x" "2 powi k \<le> x" "x < 2 powi (k + 1)"
  shows "ilog2 x = k"
proof (rule ccontr)
  assume ne: "ilog2 x \<noteq> k"
  note b = ilog2_bounds [OF assms(1)]
  show False
  proof (cases "ilog2 x < k")
    case True
    then have "(2::rat) powi (ilog2 x + 1) \<le> 2 powi k"
      by (intro power_int_increasing) simp_all
    with b assms show False by linarith
  next
    case False
    with ne have "k + 1 \<le> ilog2 x" by simp
    then have "(2::rat) powi (k + 1) \<le> 2 powi (ilog2 x)"
      by (intro power_int_increasing) simp_all
    with b assms show False by linarith
  qed
qed

lemma fl_eqI:
  assumes "0 < x" "2 powi k \<le> x" "x < 2 powi (k + 1)"
    and "\<bar>x / 2 powi (max (k - 52) (- 1074)) - of_int m\<bar> < 1 / 2 \<or>
         (\<bar>x / 2 powi (max (k - 52) (- 1074)) - of_int m\<bar> = 1 / 2 \<and> even m)"
    and "of_int m * 2 powi (max (k - 52) (- 1074)) < (2::rat) ^ 1024"
  shows "fl x = Finite (of_int m * 2 powi (max (k - 52) (- 1074)))"
  using assms(1,5) ilog2_unique [OF assms(1-3)] rhe_eqI [OF assms(4)]
  by (simp add: fl_def Let_def)

subsection \<open>The matcher finds the leftmost occurrence\<close>

lemma numchar_not_space: "is_numchar c \<Longrightarrow> \<not> is_space c"
  by (auto simp: is_numchar_def is_digit_def is_space_def Let_def)

lemma eq_not_space: "\<not> is_space CHR ''=''"
  by (simp add: is_space_def)

lemma takeWhile_run:
  "list_all P tok \<Longrightarrow> (case post of [] \<Rightarrow> True | c # _ \<Rightarrow> \<not> P c) \<Longrightarrow>
     takeWhile P (tok @ post) = tok"
  by (induction tok) (auto split: list.splits)

lemma dropWhile_run:
  "list_all P w \<Longrightarrow> (case rest of [] \<Rightarrow> True | c # _ \<Rightarrow> \<not> P c) \<Longrightarrow>
     dropWhile P (w @ rest) = rest"
  by (induction w) (auto split: list.splits)

lemma match_here_occurrence: "match_here s = Some tok \<longleftrightarrow> occurrence s tok"
proof
  assume m: "match_here s = Some tok"
  then have t3: "take 3 s = ''tps''"
    by (simp add: match_here_def split: if_splits)
  define r0 where "r0 = drop 3 s"
  have s: "s = ''tps'' @ r0"
    using append_take_drop_id [of 3 s] t3 by (simp add: r0_def)
  define w1 where "w1 = takeWhile is_space r0"
  from m t3 obtain r where r: "dropWhile is_space r0 = CHR ''='' # r"
    by (auto simp: match_here_def r0_def split: list.splits if_splits)
  define w2 where "w2 = takeWhile is_space r"
  define post where "post = dropWhile is_numchar (dropWhile is_space r)"
  from m t3 r have tok: "tok = takeWhile is_numchar (dropWhile is_space r)" "tok \<noteq> []"
    by (auto simp: match_here_def r0_def Let_def split: if_splits)
  have "r0 = w1 @ CHR ''='' # r"
    using takeWhile_dropWhile_id [of is_space r0] r by (simp add: w1_def)
  moreover have "r = w2 @ tok @ post"
    using takeWhile_dropWhile_id [of is_space r]
      takeWhile_dropWhile_id [of is_numchar "dropWhile is_space r"]
    by (simp add: w2_def tok post_def)
  ultimately have "s = ''tps'' @ w1 @ ''='' @ w2 @ tok @ post"
    using s by simp
  moreover have "list_all is_space w1" "list_all is_space w2" "list_all is_numchar tok"
    by (auto simp: w1_def w2_def tok list_all_iff dest: set_takeWhileD)
  moreover have "case post of [] \<Rightarrow> True | c # _ \<Rightarrow> \<not> is_numchar c"
  proof (cases post)
    case Nil
    then show ?thesis by simp
  next
    case (Cons c t)
    then have "dropWhile is_numchar (dropWhile is_space r) \<noteq> []"
      by (simp add: post_def)
    from hd_dropWhile [OF this] Cons show ?thesis
      by (simp add: post_def)
  qed
  ultimately show "occurrence s tok"
    unfolding occurrence_def using tok(2) by blast
next
  assume "occurrence s tok"
  then obtain w1 w2 post where s: "s = ''tps'' @ w1 @ ''='' @ w2 @ tok @ post"
    and w: "list_all is_space w1" "list_all is_space w2"
    and t: "tok \<noteq> []" "list_all is_numchar tok"
    and p: "case post of [] \<Rightarrow> True | c # _ \<Rightarrow> \<not> is_numchar c"
    unfolding occurrence_def by blast
  have d1: "dropWhile is_space (w1 @ CHR ''='' # w2 @ tok @ post) = CHR ''='' # w2 @ tok @ post"
    using w(1) by (intro dropWhile_run) (simp_all add: eq_not_space)
  obtain c tl where ctl: "tok = c # tl" using t(1) by (cases tok) auto
  then have "\<not> is_space c" using t(2) by (simp add: numchar_not_space)
  then have d2: "dropWhile is_space (w2 @ tok @ post) = tok @ post"
    using w(2) ctl by (intro dropWhile_run) simp_all
  have d3: "takeWhile is_numchar (tok @ post) = tok"
    using t(2) p by (rule takeWhile_run)
  show "match_here s = Some tok"
    using t(1) by (simp add: match_here_def s d1 d2 d3)
qed

lemma occurrence_unique: "occurrence s tok \<Longrightarrow> occurrence s tok' \<Longrightarrow> tok' = tok"
  by (metis match_here_occurrence option.inject)

lemma search_first:
  "search s = Some tok \<longleftrightarrow>
     (\<exists>n. n \<le> length s \<and> match_here (drop n s) = Some tok \<and>
          (\<forall>i < n. match_here (drop i s) = None))"
proof (induction s)
  case Nil
  then show ?case by simp
next
  case (Cons c cs)
  show ?case
  proof (cases "match_here (c # cs)")
    case (Some t)
    show ?thesis
    proof
      assume "search (c # cs) = Some tok"
      with Some have "t = tok" by simp
      with Some show "\<exists>n. n \<le> length (c # cs) \<and> match_here (drop n (c # cs)) = Some tok \<and>
          (\<forall>i < n. match_here (drop i (c # cs)) = None)"
        by (intro exI [of _ 0]) simp
    next
      assume "\<exists>n. n \<le> length (c # cs) \<and> match_here (drop n (c # cs)) = Some tok \<and>
          (\<forall>i < n. match_here (drop i (c # cs)) = None)"
      then obtain n where n: "match_here (drop n (c # cs)) = Some tok"
        "\<forall>i < n. match_here (drop i (c # cs)) = None" by blast
      have "n = 0"
      proof (rule ccontr)
        assume "n \<noteq> 0"
        then have "match_here (drop 0 (c # cs)) = None" using n(2) by blast
        with Some show False by simp
      qed
      with n(1) Some show "search (c # cs) = Some tok" by simp
    qed
  next
    case None
    then have sc: "search (c # cs) = search cs" by simp
    show ?thesis unfolding sc Cons.IH
    proof
      assume "\<exists>n\<le>length cs. match_here (drop n cs) = Some tok \<and> (\<forall>i<n. match_here (drop i cs) = None)"
      then obtain n where n: "n \<le> length cs" "match_here (drop n cs) = Some tok"
        "\<forall>i<n. match_here (drop i cs) = None" by blast
      have "\<forall>i < Suc n. match_here (drop i (c # cs)) = None"
      proof (intro allI impI)
        fix i assume "i < Suc n"
        then show "match_here (drop i (c # cs)) = None"
          using None n(3) by (cases i) simp_all
      qed
      with n(1,2) show "\<exists>n\<le>length (c # cs). match_here (drop n (c # cs)) = Some tok \<and>
          (\<forall>i<n. match_here (drop i (c # cs)) = None)"
        by (intro exI [of _ "Suc n"]) simp
    next
      assume "\<exists>n\<le>length (c # cs). match_here (drop n (c # cs)) = Some tok \<and>
          (\<forall>i<n. match_here (drop i (c # cs)) = None)"
      then obtain n where n: "n \<le> length (c # cs)" "match_here (drop n (c # cs)) = Some tok"
        "\<forall>i<n. match_here (drop i (c # cs)) = None" by blast
      from n(2) None obtain k where k: "n = Suc k" by (cases n) auto
      have "\<forall>i<k. match_here (drop i cs) = None"
      proof (intro allI impI)
        fix i assume "i < k"
        then have "match_here (drop (Suc i) (c # cs)) = None" using n(3) k by blast
        then show "match_here (drop i cs) = None" by simp
      qed
      with n(1,2) k show "\<exists>n\<le>length cs. match_here (drop n cs) = Some tok \<and> (\<forall>i<n. match_here (drop i cs) = None)"
        by (intro exI [of _ k]) simp
    qed
  qed
qed

lemma match_here_None: "match_here s = None \<longleftrightarrow> (\<forall>t. \<not> occurrence s t)"
  by (metis match_here_occurrence not_Some_eq)

lemma search_first_occurrence: "search line = Some tok \<longleftrightarrow> first_occurrence line tok"
  by (simp add: search_first first_occurrence_def match_here_occurrence match_here_None)

subsection \<open>The order of the floats, \<^verbatim>\<open>min\<close> and \<^verbatim>\<open>max\<close>\<close>

lemma fle_refl: "fle a a"
  by (cases a) simp_all

lemma fle_trans: "fle a b \<Longrightarrow> fle b c \<Longrightarrow> fle a c"
  by (cases a; cases b; cases c) simp_all

lemma fle_antisym: "fle a b \<Longrightarrow> fle b a \<Longrightarrow> a = b"
  by (cases a; cases b) simp_all

lemma fle_total: "fle a b \<or> fle b a"
  by (cases a; cases b) auto

lemma min_step_le: "fle (if flt x m then x else m) m \<and> fle (if flt x m then x else m) x"
  using fle_total [of x m] by (auto simp: flt_def fle_refl)

lemma max_step_ge: "fle m (if flt m x then x else m) \<and> fle x (if flt m x then x else m)"
  using fle_total [of x m] by (auto simp: flt_def fle_refl)

lemma py_min_in: "py_min v rest \<in> set (v # rest)"
  unfolding py_min_def by (induction rest arbitrary: v) auto

lemma py_max_in: "py_max v rest \<in> set (v # rest)"
  unfolding py_max_def by (induction rest arbitrary: v) auto

lemma min_fold_le_start: "fle (foldl (\<lambda>m x. if flt x m then x else m) m rest) m"
proof (induction rest arbitrary: m)
  case Nil
  then show ?case by (simp add: fle_refl)
next
  case (Cons a rest)
  show ?case
    using Cons [of "if flt a m then a else m"] min_step_le [of a m]
    by (auto intro: fle_trans)
qed

lemma max_fold_ge_start: "fle m (foldl (\<lambda>m x. if flt m x then x else m) m rest)"
proof (induction rest arbitrary: m)
  case Nil
  then show ?case by (simp add: fle_refl)
next
  case (Cons a rest)
  show ?case
    using Cons [of "if flt m a then a else m"] max_step_ge [of m a]
    by (auto intro: fle_trans)
qed

lemma py_min_le: "x \<in> set (v # rest) \<Longrightarrow> fle (py_min v rest) x"
  unfolding py_min_def
proof (induction rest arbitrary: v)
  case Nil
  then show ?case by (simp add: fle_refl)
next
  case (Cons a rest)
  let ?m = "if flt a v then a else v"
  have step: "fle ?m v" "fle ?m a" using min_step_le [of a v] by simp_all
  note start = min_fold_le_start [of ?m rest]
  from Cons.prems consider "x = v" | "x = a" | "x \<in> set rest" by auto
  then show ?case
  proof cases
    case 1
    with start step(1) show ?thesis by (auto intro: fle_trans)
  next
    case 2
    with start step(2) show ?thesis by (auto intro: fle_trans)
  next
    case 3
    then show ?thesis using Cons.IH [of ?m] by simp
  qed
qed

lemma py_max_ge: "x \<in> set (v # rest) \<Longrightarrow> fle x (py_max v rest)"
  unfolding py_max_def
proof (induction rest arbitrary: v)
  case Nil
  then show ?case by (simp add: fle_refl)
next
  case (Cons a rest)
  let ?m = "if flt v a then a else v"
  have step: "fle v ?m" "fle a ?m" using max_step_ge [of v a] by simp_all
  note start = max_fold_ge_start [of ?m rest]
  from Cons.prems consider "x = v" | "x = a" | "x \<in> set rest" by auto
  then show ?case
  proof cases
    case 1
    with start step(1) show ?thesis by (auto intro: fle_trans)
  next
    case 2
    with start step(2) show ?thesis by (auto intro: fle_trans)
  next
    case 3
    then show ?thesis using Cons.IH [of ?m] by simp
  qed
qed

lemma py_min_eqI:
  "m \<in> set (v # rest) \<Longrightarrow> \<forall>x \<in> set (v # rest). fle m x \<Longrightarrow> py_min v rest = m"
  using py_min_in [of v rest] py_min_le [of m v rest] by (blast intro: fle_antisym)

lemma py_max_eqI:
  "m \<in> set (v # rest) \<Longrightarrow> \<forall>x \<in> set (v # rest). fle x m \<Longrightarrow> py_max v rest = m"
  using py_max_in [of v rest] py_max_ge [of m v rest] by (blast intro: fle_antisym)

lemma py_min_set: "set (v' # rest') = set (v # rest) \<Longrightarrow> py_min v' rest' = py_min v rest"
  by (metis py_min_eqI py_min_in py_min_le)

lemma py_max_set: "set (v' # rest') = set (v # rest) \<Longrightarrow> py_max v' rest' = py_max v rest"
  by (metis py_max_eqI py_max_in py_max_ge)

lemma sum_list_lower: "\<forall>x \<in> set xs. m \<le> x \<Longrightarrow> of_nat (length xs) * m \<le> sum_list (xs :: rat list)"
  by (induction xs) (auto simp: algebra_simps)

lemma sum_list_upper: "\<forall>x \<in> set xs. x \<le> m \<Longrightarrow> sum_list (xs :: rat list) \<le> of_nat (length xs) * m"
  by (induction xs) (auto simp: algebra_simps)

lemma exact_mean_within:
  assumes vs: "v # rest = map Finite xs"
    and av: "average (v # rest) = Finite (sum_list xs / of_nat (length xs))"
  shows "fle (py_min v rest) (average (v # rest)) \<and> fle (average (v # rest)) (py_max v rest)"
proof -
  have n: "0 < length xs" using vs by (cases xs) auto
  obtain lo where lo: "py_min v rest = Finite lo" "lo \<in> set xs"
    using py_min_in [of v rest] vs by auto
  obtain hi where hi: "py_max v rest = Finite hi" "hi \<in> set xs"
    using py_max_in [of v rest] vs by auto
  have "\<forall>x \<in> set xs. lo \<le> x"
  proof
    fix x assume "x \<in> set xs"
    then have "Finite x \<in> set (v # rest)" using vs by simp
    from py_min_le [OF this] lo show "lo \<le> x" by simp
  qed
  from sum_list_lower [OF this] n have l: "lo \<le> sum_list xs / of_nat (length xs)"
    by (simp add: pos_le_divide_eq mult.commute)
  have "\<forall>x \<in> set xs. x \<le> hi"
  proof
    fix x assume "x \<in> set xs"
    then have "Finite x \<in> set (v # rest)" using vs by simp
    from py_max_ge [OF this] hi show "x \<le> hi" by simp
  qed
  from sum_list_upper [OF this] n have h: "sum_list xs / of_nat (length xs) \<le> hi"
    by (simp add: pos_divide_le_eq mult.commute)
  show ?thesis using l h lo hi av by simp
qed

lemma line_sample_raises: "line_sample line = Inl e \<Longrightarrow> e = ValueError"
  by (auto simp: line_sample_def float_of_token_def split: option.splits if_splits)

lemma read_samples_closed:
  "read_samples f =
     (if \<exists>line \<in> set f. line_sample line = Inl ValueError then Inl ValueError
      else Inr (concat (map (\<lambda>line. case line_sample line of Inr (Some v) \<Rightarrow> [v] | _ \<Rightarrow> []) f)))"
proof (induction f)
  case Nil
  then show ?case by simp
next
  case (Cons line f)
  show ?case
  proof (cases "line_sample line")
    case (Inl e)
    with line_sample_raises [of line e] show ?thesis by simp
  next
    case (Inr r)
    then show ?thesis using Cons by (cases r) auto
  qed
qed

lemma read_samples_raises: "read_samples f = Inl e \<Longrightarrow> e = ValueError"
  by (simp add: read_samples_closed split: if_splits)

lemma mset_concat_map_cong:
  "mset f' = mset f \<Longrightarrow> mset (concat (map g f')) = mset (concat (map g f))"
proof -
  assume a: "mset f' = mset f"
  have "mset (concat (map g h)) = sum_mset (image_mset (\<lambda>x. mset (g x)) (mset h))" for h
    by (induction h) simp_all
  with a show ?thesis by simp
qed

lemma read_samples_permuted:
  assumes "mset f' = mset f"
  shows "(read_samples f' = Inl ValueError \<longleftrightarrow> read_samples f = Inl ValueError) \<and>
         (\<forall>vs vs'. read_samples f = Inr vs \<and> read_samples f' = Inr vs' \<longrightarrow> mset vs' = mset vs)"
proof -
  have s: "set f' = set f" using assms by (rule mset_eq_setD)
  show ?thesis
    unfolding read_samples_closed s
    using mset_concat_map_cong [OF assms] by auto
qed

lemma exact_mean_permuted:
  assumes "mset vs' = mset vs" "vs = map Finite xs" "vs' = map Finite xs'"
  shows "sum_list xs' / of_nat (length xs') = sum_list xs / of_nat (length xs)"
proof -
  let ?g = "\<lambda>v. case v of Finite x \<Rightarrow> x | Infinity \<Rightarrow> 0"
  have "map ?g (map Finite ys) = ys" for ys by (induction ys) simp_all
  then have "mset xs' = image_mset ?g (mset vs')" "mset xs = image_mset ?g (mset vs)"
    using assms(2,3) by (metis mset_map)+
  then have m: "mset xs' = mset xs"
    using assms(1) by simp
  have "sum_list xs' = sum_list xs"
    using m by (metis sum_mset_sum_list)
  moreover have "length xs' = length xs"
    using m by (rule mset_eq_length)
  ultimately show ?thesis by simp
qed

subsection \<open>Evaluation on concrete logs\<close>

lemmas matcher_defs = match_here_def is_space_def is_numchar_def is_digit_def
lemmas token_defs = line_sample_def float_of_token_def well_formed_def decimal_value_def
  digits_value_def digit_value_def
lemmas stats_defs = py_min_def py_max_def py_sum_def average_def flt_def
lemma replicate_numeral: "replicate (numeral k) x = x # replicate (pred_numeral k) x"
  by (simp add: numeral_eq_Suc)

lemmas format_defs = format_2f_def ljust15_def stats_row_def header_row_def digit_char_def
  replicate_numeral


lemma fl_eval_1: "fl (9 / 200) = Finite (3242591731706757 / 72057594037927936)"
  using fl_eqI [of "9 / 200" "- 5" 6485183463413514] by simp

lemma fl_eval_2: "fl (3242591731706757 / 72057594037927936) = Finite (3242591731706757 / 72057594037927936)"
  using fl_eqI [of "3242591731706757 / 72057594037927936" "- 5" 6485183463413514] by simp

lemma fl_eval_3: "fl (3242591731706757 / 36028797018963968) = Finite (3242591731706757 / 36028797018963968)"
  using fl_eqI [of "3242591731706757 / 36028797018963968" "- 4" 6485183463413514] by simp

lemma fl_eval_4: "fl (9727775195120271 / 72057594037927936) = Finite (607985949695017 / 4503599627370496)"
  using fl_eqI [of "9727775195120271 / 72057594037927936" "- 3" 4863887597560136] by simp

lemma fl_eval_5: "fl (607985949695017 / 13510798882111488) = Finite (6485183463413515 / 144115188075855872)"
  using fl_eqI [of "607985949695017 / 13510798882111488" "- 5" 6485183463413515] by simp

lemma fl_eval_6: "fl (241 / 2) = Finite (241 / 2)"
  using fl_eqI [of "241 / 2" "6" 8479433673408512] by simp

lemma fl_eval_7: "fl (135) = Finite 135"
  using fl_eqI [of "135" "7" 4749890231992320] by simp

lemma fl_eval_8: "fl (99999 / 1000) = Finite (3518402024511111 / 35184372088832)"
  using fl_eqI [of "99999 / 1000" "6" 7036804049022222] by simp

lemma fl_eval_9: "fl (511 / 2) = Finite (511 / 2)"
  using fl_eqI [of "511 / 2" "7" 8989607068696576] by simp

lemma fl_eval_10: "fl (12508009093207687 / 35184372088832) = Finite (1563501136650961 / 4398046511104)"
  using fl_eqI [of "12508009093207687 / 35184372088832" "8" 6254004546603844] by simp

lemma fl_eval_11: "fl (1563501136650961 / 13194139533312) = Finite (8338672728805125 / 70368744177664)"
  using fl_eqI [of "1563501136650961 / 13194139533312" "6" 8338672728805125] by simp

lemma fl_eval_12: "fl (9007199254740992) = Finite 9007199254740992"
  using fl_eqI [of "9007199254740992" "53" 4503599627370496] by simp

lemma fl_eval_13: "fl (2) = Finite 2"
  using fl_eqI [of "2" "1" 4503599627370496] by simp

lemma fl_eval_14: "fl (3) = Finite 3"
  using fl_eqI [of "3" "1" 6755399441055744] by simp

lemma fl_eval_15: "fl (1 / 10000000000000000) = Finite (2028240960365167 / 20282409603651670423947251286016)"
  using fl_eqI [of "1 / 10000000000000000" "- 54" 8112963841460668] by simp

lemma fl_eval_16: "fl (9007199254740994) = Finite 9007199254740994"
  using fl_eqI [of "9007199254740994" "53" 4503599627370497] by simp

lemma fl_eval_17: "fl (9007199254740997) = Finite 9007199254740996"
  using fl_eqI [of "9007199254740997" "53" 4503599627370498] by simp

lemma fl_eval_18: "fl (182687704666362945905099018696219101486957077103 / 20282409603651670423947251286016) = Finite 9007199254740996"
  using fl_eqI [of "182687704666362945905099018696219101486957077103 / 20282409603651670423947251286016" "53" 4503599627370498] by simp

lemma fl_eval_19: "fl (2251799813685249) = Finite 2251799813685249"
  using fl_eqI [of "2251799813685249" "51" 4503599627370498] by simp

lemma fl_eval_20: "fl (9007199254740995) = Finite 9007199254740996"
  using fl_eqI [of "9007199254740995" "53" 4503599627370498] by simp

lemma fl_eval_21: "fl (9007199254740998) = Finite 9007199254740998"
  using fl_eqI [of "9007199254740998" "53" 4503599627370499] by simp

lemma fl_eval_22: "fl (182687704666362986469918225999559949381459649135 / 20282409603651670423947251286016) = Finite 9007199254740998"
  using fl_eqI [of "182687704666362986469918225999559949381459649135 / 20282409603651670423947251286016" "53" 4503599627370499] by simp

lemma fl_eval_23: "fl (4503599627370499 / 2) = Finite (4503599627370499 / 2)"
  using fl_eqI [of "4503599627370499 / 2" "51" 4503599627370499] by simp

lemma fl_eval_24: "fl (3 / 2) = Finite (3 / 2)"
  using fl_eqI [of "3 / 2" "0" 6755399441055744] by simp

lemma fl_eval_25: "fl (5 / 2) = Finite (5 / 2)"
  using fl_eqI [of "5 / 2" "1" 5629499534213120] by simp

lemma fl_eval_26: "fl (4) = Finite 4"
  using fl_eqI [of "4" "2" 4503599627370496] by simp

lemma fl_eval_27: "fl (5) = Finite 5"
  using fl_eqI [of "5" "2" 5629499534213120] by simp

lemma rhe_eval_1: "round_half_even (81064793292668925 / 18014398509481984) = 4"
  by (rule rhe_eqI) simp

lemma rhe_eval_2: "round_half_even (162129586585337875 / 36028797018963968) = 5"
  by (rule rhe_eqI) simp

lemma rhe_eval_3: "round_half_even (87960050612777775 / 8796093022208) = 10000"
  by (rule rhe_eqI) simp

lemma rhe_eval_4: "round_half_even (13500) = 13500"
  by (rule rhe_eqI) simp

lemma rhe_eval_5: "round_half_even (208466818220128125 / 17592186044416) = 11850"
  by (rule rhe_eqI) simp

lemma rhe_eval_6: "round_half_even (50706024009129175 / 5070602400912917605986812821504) = 0"
  by (rule rhe_eqI) simp

lemma rhe_eval_7: "round_half_even (900719925474099200) = 900719925474099200"
  by (rule rhe_eqI) simp

lemma rhe_eval_8: "round_half_even (225179981368524900) = 225179981368524900"
  by (rule rhe_eqI) simp

lemma rhe_eval_9: "round_half_even (225179981368524950) = 225179981368524950"
  by (rule rhe_eqI) simp

lemma rhe_eval_10: "round_half_even (150) = 150"
  by (rule rhe_eqI) simp

lemma rhe_eval_11: "round_half_even (250) = 250"
  by (rule rhe_eqI) simp

lemma rhe_eval_12: "round_half_even (200) = 200"
  by (rule rhe_eqI) simp

lemma rhe_eval_13: "round_half_even (500) = 500"
  by (rule rhe_eqI) simp

lemmas fl_evals = fl_eval_1 fl_eval_2 fl_eval_3 fl_eval_4 fl_eval_5 fl_eval_6 fl_eval_7 fl_eval_8 fl_eval_9 fl_eval_10 fl_eval_11 fl_eval_12 fl_eval_13 fl_eval_14 fl_eval_15 fl_eval_16 fl_eval_17 fl_eval_18 fl_eval_19 fl_eval_20 fl_eval_21 fl_eval_22 fl_eval_23 fl_eval_24 fl_eval_25 fl_eval_26 fl_eval_27
lemmas rhe_evals = rhe_eval_1 rhe_eval_2 rhe_eval_3 rhe_eval_4 rhe_eval_5 rhe_eval_6 rhe_eval_7 rhe_eval_8 rhe_eval_9 rhe_eval_10 rhe_eval_11 rhe_eval_12 rhe_eval_13

subsection \<open>Lines with and without the pattern\<close>

lemma search_append: "match_here s = Some t \<Longrightarrow> \<exists>t'. search (pre @ s) = Some t'"
proof (induction pre)
  case Nil
  then show ?case by (cases s) auto
next
  case (Cons c pre)
  then show ?case by (cases "match_here (c # pre @ s)") auto
qed

lemma search_contains_pattern: "(\<exists>tok. search line = Some tok) \<longleftrightarrow> contains_pattern line"
proof
  assume "\<exists>tok. search line = Some tok"
  then obtain tok n where "occurrence (drop n line) tok"
    unfolding search_first_occurrence first_occurrence_def by blast
  then obtain w1 w2 post where d: "drop n line = ''tps'' @ w1 @ ''='' @ w2 @ tok @ post"
    and w: "list_all is_space w1" "list_all is_space w2" "tok \<noteq> []" "list_all is_numchar tok"
    unfolding occurrence_def by blast
  have "line = take n line @ ''tps'' @ w1 @ ''='' @ w2 @ tok @ post"
    using append_take_drop_id [of n line] d by simp
  with w show "contains_pattern line"
    unfolding contains_pattern_def by blast
next
  assume "contains_pattern line"
  then obtain pre w1 w2 tok post where l: "line = pre @ ''tps'' @ w1 @ ''='' @ w2 @ tok @ post"
    and w: "list_all is_space w1" "list_all is_space w2" "tok \<noteq> []" "list_all is_numchar tok"
    unfolding contains_pattern_def by blast
  let ?tok = "tok @ takeWhile is_numchar post"
  let ?post = "dropWhile is_numchar post"
  have "case ?post of [] \<Rightarrow> True | c # _ \<Rightarrow> \<not> is_numchar c"
  proof (cases ?post)
    case Nil
    show ?thesis unfolding Nil by simp
  next
    case (Cons c t)
    then have "?post \<noteq> []" by simp
    from hd_dropWhile [OF this] Cons show ?thesis by simp
  qed
  moreover have "list_all is_numchar ?tok"
    using w(4) by (auto simp: list_all_iff dest: set_takeWhileD)
  moreover have "''tps'' @ w1 @ ''='' @ w2 @ tok @ post = ''tps'' @ w1 @ ''='' @ w2 @ ?tok @ ?post"
    by simp
  ultimately have "occurrence (''tps'' @ w1 @ ''='' @ w2 @ tok @ post) ?tok"
    unfolding occurrence_def using w(1,2,3) by blast
  then have "match_here (''tps'' @ w1 @ ''='' @ w2 @ tok @ post) = Some ?tok"
    by (simp only: match_here_occurrence)
  from search_append [OF this, of pre] l show "\<exists>tok. search line = Some tok" by simp
qed

lemma search_None_iff: "search line = None \<longleftrightarrow> \<not> contains_pattern line"
  using search_contains_pattern [of line] by auto

lemma read_samples_no_match:
  "\<forall>line \<in> set f. search line = None \<Longrightarrow> read_samples f = Inr []"
  by (induction f) (simp_all add: line_sample_def)

lemma small_log_samples:
  "read_samples [''tps = 1.5'', ''tps = 2.5''] = Inr [Finite (3 / 2), Finite (5 / 2)]"
  "read_samples [''tps = 2.5'', ''tps = 1.5''] = Inr [Finite (5 / 2), Finite (3 / 2)]"
  by (simp_all add: matcher_defs token_defs fl_evals)

lemma small_log_stats:
  "py_min (Finite (3 / 2)) [Finite (5 / 2)] = Finite (3 / 2)"
  "py_max (Finite (3 / 2)) [Finite (5 / 2)] = Finite (5 / 2)"
  "average [Finite (3 / 2), Finite (5 / 2)] = Finite 2"
  "average [Finite (5 / 2), Finite (3 / 2)] = Finite 2"
  by (simp_all add: stats_defs fl_evals)

lemma small_log_row:
  "stats_row (Finite (3 / 2)) (Finite (5 / 2)) (Finite 2) = ''1.50           2.50           2.00           ''"
  by (simp add: format_defs rhe_evals)

lemma read_samples_no_pattern:
  "\<forall>line \<in> set f. \<not> contains_pattern line \<Longrightarrow> read_samples f = Inr []"
  by (rule read_samples_no_match) (simp add: search_None_iff)

lemma random_text: "\<not> contains_pattern ''random text''" "\<not> contains_pattern ''TPS = 4''"
  using search_None_iff [of "''random text''"] search_None_iff [of "''TPS = 4''"]
  by (simp_all add: matcher_defs)

subsection \<open>The example log and a small log\<close>

lemma example_samples:
  "read_samples example_log =
     Inr [Finite (241 / 2), Finite 135, Finite (3518402024511111 / 35184372088832)]"
  by (simp add: example_log_def matcher_defs token_defs fl_evals)

lemma example_stats:
  "py_min (Finite (241 / 2)) [Finite 135, Finite (3518402024511111 / 35184372088832)] =
     Finite (3518402024511111 / 35184372088832)"
  "py_max (Finite (241 / 2)) [Finite 135, Finite (3518402024511111 / 35184372088832)] =
     Finite 135"
  "average [Finite (241 / 2), Finite 135, Finite (3518402024511111 / 35184372088832)] =
     Finite (8338672728805125 / 70368744177664)"
  by (simp_all add: stats_defs fl_evals)

lemma example_formats:
  "format_2f (Finite (3518402024511111 / 35184372088832)) = ''100.00''"
  "format_2f (Finite 135) = ''135.00''"
  "format_2f (Finite (8338672728805125 / 70368744177664)) = ''118.50''"
  by (simp_all add: format_defs rhe_evals)

subsection \<open>The matching rule of the specification\<close>

text \<open>
  What a line adds to the samples, by the pattern: nothing when the pattern does not
  occur in it; otherwise the float of the group of the leftmost occurrence, when that
  group has at least one digit and at most one point.
\<close>

lemma line_sample_rule:
  "(line_sample line = Inr None \<longleftrightarrow> \<not> contains_pattern line) \<and>
   (\<forall>v. line_sample line = Inr (Some v) \<longleftrightarrow>
      (\<exists>tok. first_occurrence line tok \<and> well_formed tok \<and> v = fl (decimal_value tok)))"
proof (cases "search line")
  case None
  then have "\<not> contains_pattern line" "\<And>tok. \<not> first_occurrence line tok"
    using search_None_iff [of line] search_first_occurrence [of line] by simp_all
  with None show ?thesis by (simp add: line_sample_def)
next
  case (Some t)
  then have c: "contains_pattern line" using search_contains_pattern [of line] by blast
  have f: "first_occurrence line tok \<longleftrightarrow> tok = t" for tok
    using Some search_first_occurrence [of line tok] by auto
  show ?thesis
    using c by (auto simp: line_sample_def Some float_of_token_def f)
qed

lemma spec_source_contains_pattern: "spec_source line \<Longrightarrow> contains_pattern line"
  unfolding spec_source_def contains_pattern_def spec_token_def by blast

lemma well_formed_spec_token:
  "tok \<noteq> [] \<Longrightarrow> list_all is_numchar tok \<Longrightarrow> well_formed tok \<Longrightarrow> spec_token tok"
  by (simp add: well_formed_def spec_token_def)

text \<open>
  On every line on which the conversion does not raise, the rule of the specification
  and the method agree on whether the line gives a sample.
\<close>

lemma stated_rule_off_the_defect:
  assumes "line_sample line \<noteq> Inl ValueError"
  shows "spec_source line \<longleftrightarrow> (\<exists>v. line_sample line = Inr (Some v))"
proof (cases "search line")
  case None
  then have "\<not> contains_pattern line" by (simp add: search_None_iff)
  then have "\<not> spec_source line" using spec_source_contains_pattern by blast
  moreover have "line_sample line = Inr None" using None by (simp add: line_sample_def)
  ultimately show ?thesis by simp
next
  case (Some t)
  with assms have wf: "well_formed t"
    by (auto simp: line_sample_def float_of_token_def split: if_splits)
  then have v: "line_sample line = Inr (Some (fl (decimal_value t)))"
    using Some by (simp add: line_sample_def float_of_token_def)
  from Some obtain n where "occurrence (drop n line) t"
    unfolding search_first_occurrence first_occurrence_def by blast
  then obtain w1 w2 post where d: "drop n line = ''tps'' @ w1 @ ''='' @ w2 @ t @ post"
    and w: "list_all is_space w1" "list_all is_space w2" "t \<noteq> []" "list_all is_numchar t"
    unfolding occurrence_def by blast
  have l: "line = take n line @ ''tps'' @ w1 @ ''='' @ w2 @ t @ post"
    using append_take_drop_id [of n line] d by simp
  have "spec_token t" using w(3,4) wf by (rule well_formed_spec_token)
  with l w(1,2) have "spec_source line"
    unfolding spec_source_def by blast
  with v show ?thesis by simp
qed

section \<open>The claims\<close>

text \<open>
  Claim C1: a captured token always parses, so that no exception leaves
  \<^verbatim>\<open>extract_tps_stats\<close> whatever the text of the file. The method does not do this: the
  class \<^verbatim>\<open>[\d.]+\<close> also captures runs with several points or without a digit, which
  \<^verbatim>\<open>float\<close> rejects, and only \<^verbatim>\<open>FileNotFoundError\<close> is caught. For a log with the
  single line \<^verbatim>\<open>tps = 1.2.3\<close> the group is \<^verbatim>\<open>1.2.3\<close> and \<^verbatim>\<open>ValueError\<close> leaves the
  method.
\<close>

theorem malformed_token_raises:
  "search ''tps = 1.2.3'' = Some ''1.2.3'' \<and>
   extract_tps_stats ''test.log'' \<lparr>files = [''test.log'' \<mapsto> [''tps = 1.2.3'']], open_error = (\<lambda>p. FileNotFoundError), stdout = []\<rparr>
     = Inl ValueError"
  by (simp add: extract_tps_stats_def matcher_defs token_defs)

text \<open>
  Claim C2: a line gives a sample exactly when it contains \<^verbatim>\<open>tps\<close>, optional white
  space, \<^verbatim>\<open>=\<close>, optional white space and a numeric token of digits with at most one
  point. The method does this on every line on which it does not raise, but not on all
  lines: \<^verbatim>\<open>tps = 1.2.3\<close> contains \<^verbatim>\<open>tps\<close>, white space, \<^verbatim>\<open>=\<close>, white space and the
  token \<^verbatim>\<open>1\<close>, so it is a source of a sample by the rule; the group captured there is
  \<^verbatim>\<open>1.2.3\<close>, \<^verbatim>\<open>float\<close> raises \<^verbatim>\<open>ValueError\<close>, and the line gives no sample.
\<close>

theorem malformed_group_gives_no_sample:
  "spec_source ''tps = 1.2.3'' \<and> search ''tps = 1.2.3'' = Some ''1.2.3'' \<and>
   line_sample ''tps = 1.2.3'' = Inl ValueError"
proof (intro conjI)
  have "''tps = 1.2.3'' = [] @ ''tps'' @ '' '' @ ''='' @ '' '' @ ''1'' @ ''.2.3''"
    by simp
  moreover have "list_all is_space '' ''" "spec_token ''1''"
    by (simp_all add: spec_token_def matcher_defs)
  ultimately show "spec_source ''tps = 1.2.3''"
    unfolding spec_source_def by blast
  show "search ''tps = 1.2.3'' = Some ''1.2.3''"
    by (simp add: matcher_defs)
  show "line_sample ''tps = 1.2.3'' = Inl ValueError"
    by (simp add: matcher_defs token_defs)
qed

text \<open>
  Claim C3, as stated, fails on the average: for the log of three lines \<^verbatim>\<open>tps = 0.045\<close>
  every sample, and so the maximum, is the float nearest to \<open>0.045\<close>, which lies below
  \<open>0.045\<close>; the sum of the three rounds upwards, and the average computed from it is the
  next float, above \<open>0.045\<close>. The average is strictly greater than the maximum, and the
  row printed shows the minimum \<^verbatim>\<open>0.04\<close>, the maximum \<^verbatim>\<open>0.04\<close> and the average
  \<^verbatim>\<open>0.05\<close>.
\<close>

theorem average_counterexample:
  "read_samples [''tps = 0.045'', ''tps = 0.045'', ''tps = 0.045''] =
     Inr [Finite (3242591731706757 / 72057594037927936),
          Finite (3242591731706757 / 72057594037927936),
          Finite (3242591731706757 / 72057594037927936)] \<and>
   py_max (Finite (3242591731706757 / 72057594037927936))
     [Finite (3242591731706757 / 72057594037927936),
      Finite (3242591731706757 / 72057594037927936)] =
     Finite (3242591731706757 / 72057594037927936) \<and>
   average [Finite (3242591731706757 / 72057594037927936),
            Finite (3242591731706757 / 72057594037927936),
            Finite (3242591731706757 / 72057594037927936)] =
     Finite (6485183463413515 / 144115188075855872) \<and>
   flt (Finite (3242591731706757 / 72057594037927936))
       (Finite (6485183463413515 / 144115188075855872)) \<and>
   stats_row (Finite (3242591731706757 / 72057594037927936))
     (Finite (3242591731706757 / 72057594037927936))
     (Finite (6485183463413515 / 144115188075855872)) =
     ''0.04           0.04           0.05           ''"
  by (simp add: matcher_defs token_defs stats_defs format_defs fl_evals rhe_evals)

text \<open>
  Claim C3, amended: for a log whose list of samples is not empty, the method prints the
  captured list and the row of the minimum, the maximum and the average, each in
  \<^verbatim>\<open>.2f\<close>; the minimum and the maximum are samples, every sample lies between them,
  and the average is the rounded quotient of the rounded sum by the count. The average
  lies between the minimum and the maximum whenever it equals the exact mean of the
  samples, that is whenever no rounding error remains in it.
\<close>

theorem statistics:
  assumes "files w log_file = Some f" and "read_samples f = Inr (v # rest)"
  shows
    "extract_tps_stats log_file w =
       Inr (print
         [Captured_TPS_values (v # rest),
          Line (CHR 0x0A # ''TPS Statistics''),
          Line header_row,
          Line (replicate 45 CHR ''-''),
          Line (stats_row (py_min v rest) (py_max v rest) (average (v # rest)))] w) \<and>
     py_min v rest \<in> set (v # rest) \<and>
     py_max v rest \<in> set (v # rest) \<and>
     (\<forall>x \<in> set (v # rest). fle (py_min v rest) x \<and> fle x (py_max v rest)) \<and>
     (\<forall>xs. v # rest = map Finite xs \<and>
           average (v # rest) = Finite (sum_list xs / of_nat (length xs)) \<longrightarrow>
           fle (py_min v rest) (average (v # rest)) \<and>
           fle (average (v # rest)) (py_max v rest))"
proof -
  have "extract_tps_stats log_file w =
       Inr (print
         [Captured_TPS_values (v # rest),
          Line (CHR 0x0A # ''TPS Statistics''),
          Line header_row,
          Line (replicate 45 CHR ''-''),
          Line (stats_row (py_min v rest) (py_max v rest) (average (v # rest)))] w)"
    using assms by (simp add: extract_tps_stats_def)
  moreover have "\<forall>x \<in> set (v # rest). fle (py_min v rest) x \<and> fle x (py_max v rest)"
    using py_min_le [of _ v rest] py_max_ge [of _ v rest] by blast
  moreover have "\<forall>xs. v # rest = map Finite xs \<and>
           average (v # rest) = Finite (sum_list xs / of_nat (length xs)) \<longrightarrow>
           fle (py_min v rest) (average (v # rest)) \<and>
           fle (average (v # rest)) (py_max v rest)"
  proof (intro allI impI)
    fix xs
    assume a: "v # rest = map Finite xs \<and>
           average (v # rest) = Finite (sum_list xs / of_nat (length xs))"
    show "fle (py_min v rest) (average (v # rest)) \<and>
           fle (average (v # rest)) (py_max v rest)"
      by (rule exact_mean_within [OF conjunct1 [OF a] conjunct2 [OF a]])
  qed
  ultimately show ?thesis
    using py_min_in [of v rest] py_max_in [of v rest] by blast
qed

theorem statistics_witness:
  "extract_tps_stats ''test.log''
     \<lparr>files = [''test.log'' \<mapsto> [''tps = 1.5'', ''tps = 2.5'']], open_error = (\<lambda>p. FileNotFoundError), stdout = []\<rparr> =
   Inr \<lparr>files = [''test.log'' \<mapsto> [''tps = 1.5'', ''tps = 2.5'']],
        open_error = (\<lambda>p. FileNotFoundError),
        stdout =
          [Captured_TPS_values [Finite (3 / 2), Finite (5 / 2)],
           Line (CHR 0x0A # ''TPS Statistics''),
           Line ''Min            Max            Average        '',
           Line (replicate 45 CHR ''-''),
           Line ''1.50           2.50           2.00           '']\<rparr> \<and>
   fle (Finite (3 / 2)) (Finite 2) \<and> fle (Finite 2) (Finite (5 / 2))"
proof -
  let ?w = "\<lparr>files = [''test.log'' \<mapsto> [''tps = 1.5'', ''tps = 2.5'']], open_error = (\<lambda>p. FileNotFoundError), stdout = []\<rparr>"
  have f: "files ?w ''test.log'' = Some [''tps = 1.5'', ''tps = 2.5'']" by simp
  note s = statistics [OF f small_log_samples(1)]
  note exact = s [THEN conjunct2, THEN conjunct2, THEN conjunct2, THEN conjunct2,
      rule_format, of "[3 / 2, 5 / 2]"]
  have "fle (Finite (3 / 2)) (Finite 2) \<and> fle (Finite 2) (Finite (5 / 2))"
    using exact by (simp add: small_log_stats)
  moreover have "extract_tps_stats ''test.log'' ?w =
    Inr \<lparr>files = [''test.log'' \<mapsto> [''tps = 1.5'', ''tps = 2.5'']],
        open_error = (\<lambda>p. FileNotFoundError),
        stdout =
          [Captured_TPS_values [Finite (3 / 2), Finite (5 / 2)],
           Line (CHR 0x0A # ''TPS Statistics''),
           Line ''Min            Max            Average        '',
           Line (replicate 45 CHR ''-''),
           Line ''1.50           2.50           2.00           '']\<rparr>"
    using s [THEN conjunct1]
    by (simp add: print_def small_log_stats small_log_row header_row_def ljust15_def
        replicate_numeral)
  ultimately show ?thesis by blast
qed

text \<open>
  Claim C4: for an existing log in which no line contains the pattern, the method prints
  the message that no values were found, prints no table, and returns without an
  exception.
\<close>

theorem no_match_is_reported:
  "files w log_file = Some f \<Longrightarrow> \<forall>line \<in> set f. \<not> contains_pattern line \<Longrightarrow>
     extract_tps_stats log_file w =
       Inr (w\<lparr>stdout := stdout w @ [Line ''No TPS values found in the log file.'']\<rparr>)"
  by (simp add: extract_tps_stats_def print_def read_samples_no_pattern)

theorem no_match_is_reported_witness:
  "extract_tps_stats ''test.log''
     \<lparr>files = [''test.log'' \<mapsto> [''random text'', ''TPS = 4'']], open_error = (\<lambda>p. FileNotFoundError), stdout = []\<rparr> =
   Inr \<lparr>files = [''test.log'' \<mapsto> [''random text'', ''TPS = 4'']],
        open_error = (\<lambda>p. FileNotFoundError),
        stdout = [Line ''No TPS values found in the log file.'']\<rparr>"
  using no_match_is_reported
    [of "\<lparr>files = [''test.log'' \<mapsto> [''random text'', ''TPS = 4'']], open_error = (\<lambda>p. FileNotFoundError), stdout = []\<rparr>"
      "''test.log''" "[''random text'', ''TPS = 4'']"]
  by (simp add: random_text)




text \<open>
  Claim C6, as stated, fails on the minimum: the samples of the example log are
  \<^verbatim>\<open>[120.5, 135.0, 99.999]\<close>, and the minimum, the float nearest to \<open>99.999\<close>, is
  written \<^verbatim>\<open>100.00\<close> by \<^verbatim>\<open>.2f\<close>, not \<^verbatim>\<open>99.99\<close>.
\<close>

theorem example_counterexample:
  "read_samples example_log =
     Inr [Finite (241 / 2), Finite 135, Finite (3518402024511111 / 35184372088832)] \<and>
   format_2f (py_min (Finite (241 / 2))
      [Finite 135, Finite (3518402024511111 / 35184372088832)]) = ''100.00'' \<and>
   format_2f (py_min (Finite (241 / 2))
      [Finite 135, Finite (3518402024511111 / 35184372088832)]) \<noteq> ''99.99''"
  by (simp add: example_samples example_stats example_formats)

text \<open>
  Claim C6, amended: for the example log the method captures the floats nearest to
  \<open>120.5\<close>, \<open>135\<close> and \<open>99.999\<close>, in the order of the file, and the row it prints
  shows the minimum \<^verbatim>\<open>100.00\<close>, the maximum \<^verbatim>\<open>135.00\<close> and the average
  \<^verbatim>\<open>118.50\<close>.
\<close>

theorem example_report:
  "fl (241 / 2) = Finite (241 / 2) \<and> fl 135 = Finite 135 \<and>
   fl (99999 / 1000) = Finite (3518402024511111 / 35184372088832) \<and>
   extract_tps_stats ''pgbench_payload.log''
     \<lparr>files = [''pgbench_payload.log'' \<mapsto> example_log], open_error = (\<lambda>p. FileNotFoundError), stdout = []\<rparr> =
   Inr \<lparr>files = [''pgbench_payload.log'' \<mapsto> example_log],
        open_error = (\<lambda>p. FileNotFoundError),
        stdout =
          [Captured_TPS_values
             [Finite (241 / 2), Finite 135, Finite (3518402024511111 / 35184372088832)],
           Line (CHR 0x0A # ''TPS Statistics''),
           Line ''Min            Max            Average        '',
           Line (replicate 45 CHR ''-''),
           Line ''100.00         135.00         118.50         '']\<rparr>"
  by (simp add: extract_tps_stats_def print_def example_samples example_stats example_formats
      stats_row_def header_row_def ljust15_def replicate_numeral fl_evals)

text \<open>
  Claim C7, as stated, fails on the average: the two logs below have the same lines in
  another order, and their averages are different floats, printed as
  \<^verbatim>\<open>2251799813685249.00\<close> and \<^verbatim>\<open>2251799813685249.50\<close>, because the additions of
  the sum round differently in the two orders.
\<close>

theorem permuted_log_counterexample:
  "mset [''tps = 9007199254740992'', ''tps = 3'', ''tps = 2'', ''tps = 0.0000000000000001''] =
   mset [''tps = 9007199254740992'', ''tps = 2'', ''tps = 3'', ''tps = 0.0000000000000001''] \<and>
   read_samples
     [''tps = 9007199254740992'', ''tps = 2'', ''tps = 3'', ''tps = 0.0000000000000001''] =
     Inr [Finite 9007199254740992, Finite 2, Finite 3,
          Finite (2028240960365167 / 20282409603651670423947251286016)] \<and>
   read_samples
     [''tps = 9007199254740992'', ''tps = 3'', ''tps = 2'', ''tps = 0.0000000000000001''] =
     Inr [Finite 9007199254740992, Finite 3, Finite 2,
          Finite (2028240960365167 / 20282409603651670423947251286016)] \<and>
   average [Finite 9007199254740992, Finite 2, Finite 3,
            Finite (2028240960365167 / 20282409603651670423947251286016)] =
     Finite 2251799813685249 \<and>
   average [Finite 9007199254740992, Finite 3, Finite 2,
            Finite (2028240960365167 / 20282409603651670423947251286016)] =
     Finite (4503599627370499 / 2) \<and>
   format_2f (Finite 2251799813685249) = ''2251799813685249.00'' \<and>
   format_2f (Finite (4503599627370499 / 2)) = ''2251799813685249.50''"
  by (simp add: matcher_defs token_defs stats_defs format_defs fl_evals rhe_evals)

text \<open>
  Claim C7, amended: for a log and a permutation of its lines, the method raises on both
  or on neither, finds no sample in both or in neither, and when both have samples the
  minimum and the maximum are the same; the averages are the same whenever each of them
  equals the exact mean of its samples.
\<close>

theorem permuted_log:
  assumes "mset f' = mset f"
  shows
    "(read_samples f' = Inl ValueError \<longleftrightarrow> read_samples f = Inl ValueError) \<and>
     (read_samples f' = Inr [] \<longleftrightarrow> read_samples f = Inr []) \<and>
     (\<forall>v rest v' rest'.
        read_samples f = Inr (v # rest) \<and> read_samples f' = Inr (v' # rest') \<longrightarrow>
        py_min v' rest' = py_min v rest \<and> py_max v' rest' = py_max v rest \<and>
        (\<forall>xs xs'.
           v # rest = map Finite xs \<and> v' # rest' = map Finite xs' \<and>
           average (v # rest) = Finite (sum_list xs / of_nat (length xs)) \<and>
           average (v' # rest') = Finite (sum_list xs' / of_nat (length xs')) \<longrightarrow>
           average (v' # rest') = average (v # rest)))"
proof -
  note p = read_samples_permuted [OF assms]
  have m: "mset vs' = mset vs" if "read_samples f = Inr vs" "read_samples f' = Inr vs'" for vs vs'
    using p that by blast
  have e: "read_samples f' = Inr [] \<longleftrightarrow> read_samples f = Inr []"
  proof
    assume a: "read_samples f' = Inr []"
    then have "read_samples f \<noteq> Inl ValueError" using p by simp
    then obtain vs where vs: "read_samples f = Inr vs"
      by (cases "read_samples f") (auto dest: read_samples_raises)
    from m [OF vs a] vs show "read_samples f = Inr []" by simp
  next
    assume a: "read_samples f = Inr []"
    then have "read_samples f' \<noteq> Inl ValueError" using p by simp
    then obtain vs where vs: "read_samples f' = Inr vs"
      by (cases "read_samples f'") (auto dest: read_samples_raises)
    from m [OF a vs] vs show "read_samples f' = Inr []" by simp
  qed
  have s: "py_min v' rest' = py_min v rest \<and> py_max v' rest' = py_max v rest \<and>
        (\<forall>xs xs'.
           v # rest = map Finite xs \<and> v' # rest' = map Finite xs' \<and>
           average (v # rest) = Finite (sum_list xs / of_nat (length xs)) \<and>
           average (v' # rest') = Finite (sum_list xs' / of_nat (length xs')) \<longrightarrow>
           average (v' # rest') = average (v # rest))"
    if r: "read_samples f = Inr (v # rest)" "read_samples f' = Inr (v' # rest')"
    for v rest v' rest'
  proof -
    note ms = m [OF r]
    then have "set (v' # rest') = set (v # rest)" by (rule mset_eq_setD)
    then have mn: "py_min v' rest' = py_min v rest" and mx: "py_max v' rest' = py_max v rest"
      by (rule py_min_set, rule py_max_set)
    have av: "\<forall>xs xs'.
           v # rest = map Finite xs \<and> v' # rest' = map Finite xs' \<and>
           average (v # rest) = Finite (sum_list xs / of_nat (length xs)) \<and>
           average (v' # rest') = Finite (sum_list xs' / of_nat (length xs')) \<longrightarrow>
           average (v' # rest') = average (v # rest)"
    proof (intro allI impI, elim conjE)
      fix xs xs'
      assume a: "v # rest = map Finite xs" "v' # rest' = map Finite xs'"
        "average (v # rest) = Finite (sum_list xs / of_nat (length xs))"
        "average (v' # rest') = Finite (sum_list xs' / of_nat (length xs'))"
      show "average (v' # rest') = average (v # rest)"
        using exact_mean_permuted [OF ms a(1,2)] a(3,4) by simp
    qed
    show ?thesis by (rule conjI [OF mn conjI [OF mx av]])
  qed
  have c1: "read_samples f' = Inl ValueError \<longleftrightarrow> read_samples f = Inl ValueError"
    using p by simp
  have c3: "\<forall>v rest v' rest'.
        read_samples f = Inr (v # rest) \<and> read_samples f' = Inr (v' # rest') \<longrightarrow>
        py_min v' rest' = py_min v rest \<and> py_max v' rest' = py_max v rest \<and>
        (\<forall>xs xs'.
           v # rest = map Finite xs \<and> v' # rest' = map Finite xs' \<and>
           average (v # rest) = Finite (sum_list xs / of_nat (length xs)) \<and>
           average (v' # rest') = Finite (sum_list xs' / of_nat (length xs')) \<longrightarrow>
           average (v' # rest') = average (v # rest))"
  proof (rule allI, rule allI, rule allI, rule allI, rule impI)
    fix v rest v' rest'
    assume a: "read_samples f = Inr (v # rest) \<and> read_samples f' = Inr (v' # rest')"
    show "py_min v' rest' = py_min v rest \<and> py_max v' rest' = py_max v rest \<and>
        (\<forall>xs xs'.
           v # rest = map Finite xs \<and> v' # rest' = map Finite xs' \<and>
           average (v # rest) = Finite (sum_list xs / of_nat (length xs)) \<and>
           average (v' # rest') = Finite (sum_list xs' / of_nat (length xs')) \<longrightarrow>
           average (v' # rest') = average (v # rest))"
      by (rule s [OF conjunct1 [OF a] conjunct2 [OF a]])
  qed
  show ?thesis by (rule conjI [OF c1 conjI [OF e c3]])
qed

theorem permuted_log_witness:
  "py_min (Finite (5 / 2)) [Finite (3 / 2)] = py_min (Finite (3 / 2)) [Finite (5 / 2)] \<and>
   py_max (Finite (5 / 2)) [Finite (3 / 2)] = py_max (Finite (3 / 2)) [Finite (5 / 2)] \<and>
   average [Finite (5 / 2), Finite (3 / 2)] = average [Finite (3 / 2), Finite (5 / 2)]"
proof -
  have ms: "mset [''tps = 2.5'', ''tps = 1.5''] = mset [''tps = 1.5'', ''tps = 2.5'']"
    by simp
  note t = permuted_log [OF ms, THEN conjunct2, THEN conjunct2, rule_format,
      of "Finite (3 / 2)" "[Finite (5 / 2)]" "Finite (5 / 2)" "[Finite (3 / 2)]",
      OF conjI [OF small_log_samples]]
  note a = t [THEN conjunct2, THEN conjunct2, rule_format, of "[3 / 2, 5 / 2]" "[5 / 2, 3 / 2]"]
  have "average [Finite (5 / 2), Finite (3 / 2)] = average [Finite (3 / 2), Finite (5 / 2)]"
    by (rule a) (simp add: small_log_stats)
  then show ?thesis
    by (rule conjI [OF t [THEN conjunct1] conjI [OF t [THEN conjunct2, THEN conjunct1]]])
qed

text \<open>
  Claim C9: in the line \<^verbatim>\<open>https = 5\<close> the letters \<^verbatim>\<open>tps\<close> end a longer word; the
  pattern does not match at the start of the line, the search finds it at the third
  character, and the line gives the sample \<open>5.0\<close>.
\<close>

theorem tps_inside_a_word_is_captured:
  "match_here ''https = 5'' = None \<and> match_here ''tps = 5'' = Some ''5'' \<and>
   search ''https = 5'' = Some ''5'' \<and>
   read_samples [''https = 5''] = Inr [Finite 5]"
  by (simp add: matcher_defs token_defs fl_evals)

text \<open>
  Claim C10, as stated, fails on its last part: with \<^verbatim>\<open>benchmark_duration = -1\<close> and
  \<^verbatim>\<open>transaction_count = 0\<close> the validation changes nothing and \<^verbatim>\<open>test\<close> runs the
  command with \<^verbatim>\<open>--transactions=0\<close>, although the duration is not zero and the count
  is not positive.
\<close>

theorem command_choice_counterexample:
  "validate \<lparr>scaling_factor = 100, worker_threads = 4, db_clients = 4,
      protocol = ''prepared'', benchmark_duration = - 1, transaction_count = 0\<rparr> =
     ([], \<lparr>scaling_factor = 100, worker_threads = 4, db_clients = 4,
      protocol = ''prepared'', benchmark_duration = - 1, transaction_count = 0\<rparr>) \<and>
   benchmark_command \<lparr>scaling_factor = 100, worker_threads = 4, db_clients = 4,
      protocol = ''prepared'', benchmark_duration = - 1, transaction_count = 0\<rparr> =
     Pgbench_transactions ''prepared'' 4 100 4 0"
  by (simp add: benchmark_command_def validate_def)

text \<open>
  Claim C10, amended: when both parameters are zero the duration becomes 120; whenever the
  duration after the validation is positive the command with \<^verbatim>\<open>--time\<close> is run, in
  which the count does not occur; the command with \<^verbatim>\<open>--transactions\<close> is run exactly
  when the given duration is negative, or zero with a count other than zero. For
  parameters that are not negative this is: exactly when the duration is zero and the
  count is positive.
\<close>

theorem command_choice:
  "(benchmark_duration p = 0 \<and> transaction_count p = 0 \<longrightarrow>
      benchmark_duration (snd (validate p)) = 120) \<and>
   (0 < benchmark_duration (snd (validate p)) \<longrightarrow>
      benchmark_command (snd (validate p)) =
        Pgbench_time (protocol p) (worker_threads p) (scaling_factor p) (db_clients p)
          (benchmark_duration (snd (validate p)))) \<and>
   (is_transactions (benchmark_command (snd (validate p))) \<longleftrightarrow>
      benchmark_duration p < 0 \<or> (benchmark_duration p = 0 \<and> transaction_count p \<noteq> 0)) \<and>
   (0 \<le> benchmark_duration p \<and> 0 \<le> transaction_count p \<longrightarrow>
      (is_transactions (benchmark_command (snd (validate p))) \<longleftrightarrow>
         benchmark_duration p = 0 \<and> 0 < transaction_count p))"
  by (auto simp: benchmark_command_def validate_def)

theorem command_choice_witness:
  "benchmark_duration (snd (validate \<lparr>scaling_factor = 100, worker_threads = 4, db_clients = 4,
      protocol = ''prepared'', benchmark_duration = 0, transaction_count = 0\<rparr>)) = 120 \<and>
   benchmark_command (snd (validate \<lparr>scaling_factor = 100, worker_threads = 4, db_clients = 4,
      protocol = ''prepared'', benchmark_duration = 0, transaction_count = 0\<rparr>)) =
     Pgbench_time ''prepared'' 4 100 4 120 \<and>
   benchmark_command (snd (validate \<lparr>scaling_factor = 100, worker_threads = 4, db_clients = 4,
      protocol = ''prepared'', benchmark_duration = 60, transaction_count = 500\<rparr>)) =
     Pgbench_time ''prepared'' 4 100 4 60 \<and>
   is_transactions (benchmark_command (snd (validate \<lparr>scaling_factor = 100, worker_threads = 4,
      db_clients = 4, protocol = ''prepared'', benchmark_duration = 0,
      transaction_count = 500\<rparr>)))"
proof -
  let ?p = "\<lambda>d t. \<lparr>scaling_factor = 100, worker_threads = 4, db_clients = 4,
      protocol = ''prepared'', benchmark_duration = d, transaction_count = t\<rparr>"
  have v: "validate (?p 0 0) = ([None_given], ?p 120 0)"
    "validate (?p 60 500) = ([Both_given], ?p 60 500)"
    "validate (?p 0 500) = ([], ?p 0 500)"
    by (simp_all add: validate_def)
  note a = command_choice [of "?p 0 0"]
  note b = command_choice [of "?p 60 500"]
  note c = command_choice [of "?p 0 500"]
  have "benchmark_duration (snd (validate (?p 0 0))) = 120"
    using a by simp
  moreover have "benchmark_command (snd (validate (?p 0 0))) = Pgbench_time ''prepared'' 4 100 4 120"
    using a v(1) by simp
  moreover have "benchmark_command (snd (validate (?p 60 500))) = Pgbench_time ''prepared'' 4 100 4 60"
    using b v(2) by simp
  moreover have "is_transactions (benchmark_command (snd (validate (?p 0 500))))"
    using c by simp
  ultimately show ?thesis by simp
qed

end
